theory Spec2Isabelle
  imports Main "HOL-Library.Sublist"
begin

section \<open>JavaScript strings and the regular expressions of \<open>src/index.ts\<close>\<close>

text \<open>
  A JavaScript string is a sequence of UTF-16 code units, and a regular expression without
  the \<open>u\<close> flag works on code units. A code unit is a natural number here; \<open>js\<close> turns an
  ASCII literal into such a string.
\<close>

type_synonym jschar = nat
type_synonym jsstring = "nat list"

definition js :: "string \<Rightarrow> jsstring" where
  "js s = map of_char s"

text \<open>The character classes \<open>\s\<close>, \<open>\d\<close>, \<open>\w\<close> and \<open>.\<close> of ECMAScript.\<close>

definition is_space :: "jschar \<Rightarrow> bool" where
  "is_space c \<longleftrightarrow>
     c = 9 \<or> c = 10 \<or> c = 11 \<or> c = 12 \<or> c = 13 \<or> c = 32 \<or> c = 160 \<or> c = 5760
     \<or> (8192 \<le> c \<and> c \<le> 8202) \<or> c = 8232 \<or> c = 8233 \<or> c = 8239 \<or> c = 8287
     \<or> c = 12288 \<or> c = 65279"

definition is_digit :: "jschar \<Rightarrow> bool" where
  "is_digit c \<longleftrightarrow> 48 \<le> c \<and> c \<le> 57"

definition is_word :: "jschar \<Rightarrow> bool" where
  "is_word c \<longleftrightarrow> (97 \<le> c \<and> c \<le> 122) \<or> (65 \<le> c \<and> c \<le> 90) \<or> is_digit c \<or> c = 95"

definition is_dot :: "jschar \<Rightarrow> bool" where
  "is_dot c \<longleftrightarrow> \<not> (c = 10 \<or> c = 13 \<or> c = 8232 \<or> c = 8233)"

text \<open>
  The fragment of the regular expression syntax the program uses: a character class, a
  sequence, the greedy \<open>+\<close> and \<open>?\<close>, and a numbered capture group. A non-capturing
  group \<open>(?:r)\<close> is \<open>r\<close> itself.
\<close>

datatype rx = Cls "jschar \<Rightarrow> bool" | Seq rx rx | Plus rx | Opt rx | Grp nat rx

text \<open>
  A matcher state is the input still to read and the captures made so far. \<open>rmatch r st\<close>
  lists every way \<open>r\<close> can match at the front of the input, in the order in which a
  backtracking matcher tries them; the regular expression engine takes the first one that
  lets the rest of the pattern match.
\<close>

type_synonym mstate = "jsstring \<times> (nat \<times> jsstring) list"

text \<open>
  \<open>plus_all f len sts\<close>: \<open>sts\<close> are the states after one more iteration of the body \<open>f\<close>,
  started on an input of length \<open>len\<close>. Greedy: after an iteration that consumed input the
  further iterations come first, then the state itself. An iteration that consumed nothing
  is not repeated.
\<close>

function plus_all :: "(mstate \<Rightarrow> mstate list) \<Rightarrow> nat \<Rightarrow> mstate list \<Rightarrow> mstate list" where
  "plus_all f len [] = []"
| "plus_all f len (st' # rest) =
     (if length (fst st') < len then plus_all f (length (fst st')) (f st') else [])
       @ st' # plus_all f len rest"
  by pat_completeness auto
termination
  by (relation "measures [\<lambda>(f, len, sts). len, \<lambda>(f, len, sts). length sts]") auto

primrec rmatch :: "rx \<Rightarrow> mstate \<Rightarrow> mstate list" where
  "rmatch (Cls p) st = (case fst st of [] \<Rightarrow> [] | x # xs \<Rightarrow> if p x then [(xs, snd st)] else [])"
| "rmatch (Seq a b) st = concat (map (rmatch b) (rmatch a st))"
| "rmatch (Plus a) st = plus_all (rmatch a) (length (fst st)) (rmatch a st)"
| "rmatch (Opt a) st = rmatch a st @ [st]"
| "rmatch (Grp k a) st =
     map (\<lambda>st'. (fst st', (k, take (length (fst st) - length (fst st')) (fst st)) # snd st'))
       (rmatch a st)"

text \<open>
  \<open>RegExp.prototype.exec\<close> and \<open>String.prototype.match\<close> of a pattern without flags: the
  leftmost start position at which the pattern matches; the result is \<open>null\<close> (\<open>None\<close>) or the
  captures by group number.
\<close>

fun exec :: "rx \<Rightarrow> jsstring \<Rightarrow> (nat \<times> jsstring) list option" where
  "exec r [] = (case rmatch r ([], []) of [] \<Rightarrow> None | st # _ \<Rightarrow> Some (snd st))"
| "exec r (x # xs) =
     (case rmatch r (x # xs, []) of [] \<Rightarrow> exec r xs | st # _ \<Rightarrow> Some (snd st))"


text \<open>
  The groups a pattern captures on every match, and the groups a matcher state has
  captured.
\<close>

primrec groups :: "rx \<Rightarrow> nat set" where
  "groups (Cls p) = {}"
| "groups (Seq a b) = groups a \<union> groups b"
| "groups (Plus a) = groups a"
| "groups (Opt a) = {}"
| "groups (Grp k a) = insert k (groups a)"

definition captured :: "mstate \<Rightarrow> nat set" where
  "captured st = fst ` set (snd st)"

definition lit :: "char \<Rightarrow> rx" where
  "lit c = Cls (\<lambda>x. x = of_char c)"

definition not_space :: rx where
  "not_space = Cls (\<lambda>c. \<not> is_space c)"

text \<open>\<open>(?:\d+,?)+\<close>\<close>

definition num_rx :: rx where
  "num_rx = Plus (Seq (Plus (Cls is_digit)) (Opt (lit CHR '','')))"

text \<open>Line 78: \<open>/(\S+\s\/)(\s+\S+)\s+((?:\d+,?)+)(\s+)((?:\d+,?)+)/\<close>\<close>

definition row_rx :: rx where
  "row_rx =
     Seq (Grp 1 (Seq (Plus not_space) (Seq (Cls is_space) (lit CHR ''/''))))
    (Seq (Grp 2 (Seq (Plus (Cls is_space)) (Plus not_space)))
    (Seq (Plus (Cls is_space))
    (Seq (Grp 3 num_rx)
    (Seq (Grp 4 (Plus (Cls is_space)))
         (Grp 5 num_rx)))))"

text \<open>Line 275: \<open>/(\S+\/\S+)/\<close>\<close>

definition owner_repo_rx :: rx where
  "owner_repo_rx = Grp 1 (Seq (Plus not_space) (Seq (lit CHR ''/'') (Plus not_space)))"

text \<open>Line 282: \<open>/\w+.json/\<close>; the dot is not escaped and the pattern has no anchor.\<close>

definition json_rx :: rx where
  "json_rx =
     Seq (Plus (Cls is_word)) (Seq (Cls is_dot)
       (Seq (lit CHR ''j'') (Seq (lit CHR ''s'') (Seq (lit CHR ''o'') (lit CHR ''n'')))))"

text \<open>The three global replacements of lines 81 to 84.\<close>

fun remove_space_slash :: "jsstring \<Rightarrow> jsstring" where
  "remove_space_slash (x # y # r) =
     (if is_space x \<and> y = of_char CHR ''/'' then remove_space_slash r
      else x # remove_space_slash (y # r))"
| "remove_space_slash xs = xs"

definition remove_spaces :: "jsstring \<Rightarrow> jsstring" where
  "remove_spaces s = filter (\<lambda>c. \<not> is_space c) s"

definition remove_commas :: "jsstring \<Rightarrow> jsstring" where
  "remove_commas s = filter (\<lambda>c. c \<noteq> of_char CHR '','') s"

text \<open>
  A JavaScript number as far as the program makes one: \<open>parseInt\<close> of a string of decimal
  digits, or \<open>NaN\<close> when the string does not start with a digit. The strings the program
  gives to \<open>parseInt\<close> are groups 3 and 5 of the pattern without their commas, which hold
  digits only, so the white space, sign and radix prefix that \<open>parseInt\<close> also reads are
  left out. The value is exact here. The program's number is a double, which is exact
  below \<open>2 ^ 53\<close> and rounded from there on, so the two differ for counts of
  \<open>2 ^ 53\<close> and more; nothing stated below depends on the value of a count.
\<close>

datatype jsnum = NaN | Num nat

definition parseInt :: "jsstring \<Rightarrow> jsnum" where
  "parseInt s =
     (case takeWhile is_digit s of
        [] \<Rightarrow> NaN
      | ds \<Rightarrow> Num (foldl (\<lambda>acc d. 10 * acc + (d - 48)) 0 ds))"


section \<open>The record model and the persisted store\<close>

record Dependent =
  owner :: jsstring
  repo :: jsstring
  stars :: jsnum
  forks :: jsnum
  previousGithubDependentsPageUrl :: "jsstring option"

text \<open>
  Every \<open>throw\<close> of the program, and the failures of the collaborators it calls: the file
  that does not hold a JSON array, the selector that times out, the navigation that fails.
\<close>

datatype error =
    StoreUnreadable
  | FileAppearsEmpty
  | UnableToParseDependents
  | NoPreviousButton
  | NoNextButton
  | NextUrlUndefined
  | GotoFailed
  | BadOwnerAndRepo
  | BadDependentsFile
  | BadResumeCrawl

text \<open>
  The dependents file is \<open>None\<close> when it cannot be read as a JSON array of records, and the
  array otherwise. \<open>JSON.stringify\<close> followed by \<open>JSON.parse\<close> gives the records back.
\<close>

type_synonym store = "Dependent list option"

definition getDependentsFromFile :: "store \<Rightarrow> error + Dependent list" where
  "getDependentsFromFile f = (case f of None \<Rightarrow> Inl StoreUnreadable | Some ds \<Rightarrow> Inr ds)"

definition saveDependentsToFile :: "store \<Rightarrow> Dependent list \<Rightarrow> bool \<Rightarrow> error + store" where
  "saveDependentsToFile f dependents overwriteDependentsFile =
     (if \<not> overwriteDependentsFile then
        (case getDependentsFromFile f of
           Inl e \<Rightarrow> Inl e
         | Inr existingDependents \<Rightarrow> Inr (Some (existingDependents @ dependents)))
      else Inr (Some dependents))"


section \<open>The rendered page\<close>

text \<open>
  What the selectors of the program see of a rendered page: the element children of
  \<open>#dependents > div.Box\<close> (\<open>None\<close> when there is no such container), and the element children
  of \<open>#dependents > div.paginate-container > div\<close> (empty when there is none). A page has
  at most one such container and one such pagination block, as the listing has, and it
  does not change while it is shown, so a selector that matches nothing times out.
\<close>

record child =
  is_div :: bool
  textContent :: jsstring

datatype tag = A | BUTTON | OTHER

record control =
  tag :: tag
  disabled :: "jsstring option"
  href :: "jsstring option"

record Page =
  box :: "child list option"
  paginate :: "control list"

text \<open>\<open>div:nth-child(index)\<close> under the container: the child at the 1-based index, if a div.\<close>

definition div_nth_child :: "child list \<Rightarrow> nat \<Rightarrow> child option" where
  "div_nth_child cs index =
     (if 1 \<le> index \<and> index \<le> length cs \<and> is_div (cs ! (index - 1))
      then Some (cs ! (index - 1)) else None)"

text \<open>\<open>a:nth-child(n)\<close>, \<open>button\<close> and \<open>a\<close> under the pagination div.\<close>

definition a_nth_child :: "control list \<Rightarrow> nat \<Rightarrow> control option" where
  "a_nth_child cs n =
     (if 1 \<le> n \<and> n \<le> length cs \<and> tag (cs ! (n - 1)) = A then Some (cs ! (n - 1)) else None)"

definition first_with_tag :: "tag \<Rightarrow> control list \<Rightarrow> control option" where
  "first_with_tag t cs = find (\<lambda>c. tag c = t) cs"


section \<open>Page Extractor: \<open>parseDependents\<close>\<close>

text \<open>
  What the body of the \<open>try\<close> of lines 70 to 86 does at one index. \<open>Inl text\<close> is the
  \<open>catch\<close>: the value of \<open>text\<close> that is logged, still empty when the selector timed out.
  A match always has the groups 1, 2, 3 and 5; reading a group that is not there would
  throw, which is the \<open>catch\<close> as well.
\<close>

definition parseRow :: "child list \<Rightarrow> nat \<Rightarrow> jsstring + Dependent" where
  "parseRow cs index =
     (case div_nth_child cs index of
        None \<Rightarrow> Inl []
      | Some element \<Rightarrow>
          (let text = textContent element in
           (case exec row_rx text of
              None \<Rightarrow> Inl text
            | Some res \<Rightarrow>
                (case (map_of res 1, map_of res 2, map_of res 3, map_of res 5) of
                   (Some r1, Some r2, Some r3, Some r5) \<Rightarrow>
                     Inr \<lparr> owner = remove_space_slash r1,
                           repo = remove_spaces r2,
                           stars = parseInt (remove_commas r3),
                           forks = parseInt (remove_commas r5),
                           previousGithubDependentsPageUrl = None \<rparr>
                 | _ \<Rightarrow> Inl text))))"

text \<open>
  The loop of line 67, \<open>for (let index = 2; index <= numberOfDependents; index++)\<close>. Beside
  the array \<open>dependents\<close> it carries what \<open>console.error\<close> and \<open>console.log\<close> were given:
  the index of each row that failed and the text logged for it.
\<close>

function parseRows ::
  "child list \<Rightarrow> nat \<Rightarrow> nat \<Rightarrow> Dependent list \<Rightarrow> (nat \<times> jsstring) list
     \<Rightarrow> Dependent list \<times> (nat \<times> jsstring) list" where
  "parseRows cs numberOfDependents index dependents reported =
     (if index \<le> numberOfDependents then
        (case parseRow cs index of
           Inr d \<Rightarrow> parseRows cs numberOfDependents (index + 1) (dependents @ [d]) reported
         | Inl text \<Rightarrow>
             parseRows cs numberOfDependents (index + 1) dependents (reported @ [(index, text)]))
      else (dependents, reported))"
  by pat_completeness auto
termination
  by (relation "measure (\<lambda>(cs, n, index, d, r). Suc n - index)") auto

declare parseRows.simps [simp del]

text \<open>
  \<open>parseDependents\<close> is \<open>None\<close> where the program returns \<open>undefined\<close>: the container was not
  found, the outer \<open>catch\<close> logged the error and took a screenshot.
\<close>

definition parseDependents :: "Page \<Rightarrow> (Dependent list \<times> (nat \<times> jsstring) list) option" where
  "parseDependents page =
     (case box page of
        None \<Rightarrow> None
      | Some cs \<Rightarrow> Some (parseRows cs (length cs) 2 [] []))"

text \<open>
  The words of the specification for the extractor. A row matches when it is a \<open>div\<close>
  whose text the pattern of line 78 matches; \<open>row_dependent\<close> is what the loop body makes
  of one child, taken alone; \<open>parsed_at\<close> and \<open>reported_at\<close> are what the loop body adds at
  one index to the result and to the log.
\<close>

definition row_matches :: "child \<Rightarrow> bool" where
  "row_matches c \<longleftrightarrow> is_div c \<and> exec row_rx (textContent c) \<noteq> None"

definition row_dependent :: "child \<Rightarrow> Dependent option" where
  "row_dependent c = (case parseRow [c] 1 of Inr d \<Rightarrow> Some d | Inl text \<Rightarrow> None)"

definition parsed_at :: "child list \<Rightarrow> nat \<Rightarrow> Dependent option" where
  "parsed_at cs index = (case parseRow cs index of Inr d \<Rightarrow> Some d | Inl text \<Rightarrow> None)"

definition reported_at :: "child list \<Rightarrow> nat \<Rightarrow> (nat \<times> jsstring) option" where
  "reported_at cs index =
     (case parseRow cs index of Inr d \<Rightarrow> None | Inl text \<Rightarrow> Some (index, text))"


section \<open>Pagination Navigator\<close>

text \<open>
  What \<open>page.evaluate\<close> returns for a link: \<open>null\<close>, \<open>undefined\<close> or the \<open>href\<close>. The
  callback of lines 121 to 126 (and 153 to 158) on an element handle that is not null:
  \<open>getAttribute\<close> is \<open>null\<close> for an attribute that is not set.
\<close>

datatype link = Null | Undefined | Href jsstring

definition link_of :: "control \<Rightarrow> link" where
  "link_of el =
     (if disabled el = Some (js ''disabled'') then Null
      else (case href el of None \<Rightarrow> Null | Some h \<Rightarrow> Href h))"

definition getPreviousDependentsPageUrl :: "Page \<Rightarrow> error + link" where
  "getPreviousDependentsPageUrl page =
     (case a_nth_child (paginate page) 1 of
        Some element \<Rightarrow> Inr (link_of element)
      | None \<Rightarrow>
          (case first_with_tag BUTTON (paginate page) of
             Some element \<Rightarrow> Inr (link_of element)
           | None \<Rightarrow> Inl NoPreviousButton))"

definition getNextDependentsPageUrl :: "Page \<Rightarrow> error + link" where
  "getNextDependentsPageUrl page =
     (case a_nth_child (paginate page) 2 of
        Some element \<Rightarrow> Inr (link_of element)
      | None \<Rightarrow>
          (case getPreviousDependentsPageUrl page of
             Inl e \<Rightarrow> Inl NoNextButton
           | Inr previous \<Rightarrow>
               if previous \<noteq> Null then Inr Null
               else (case first_with_tag A (paginate page) of
                       Some element \<Rightarrow> Inr (link_of element)
                     | None \<Rightarrow> Inl NoNextButton)))"


section \<open>Deduplicating Store: \<open>removeDuplicateDependents\<close>\<close>

text \<open>
  \<open>_parsedDependents\<close> is the array \<open>parsedDependents\<close> itself, so \<open>splice\<close> removes from the
  array the loop iterates. The iterator of \<open>entries()\<close> keeps an index: each step ends the
  loop when the index has reached the length the array has then, and otherwise yields the
  element at the index and moves the index on by one. \<open>isDeepStrictEqual\<close> on two records is
  equality on all five fields.
\<close>

definition splice1 :: "nat \<Rightarrow> 'a list \<Rightarrow> 'a list" where
  "splice1 index xs = take index xs @ drop (Suc index) xs"

function dedupLoop :: "Dependent list \<Rightarrow> nat \<Rightarrow> Dependent list \<Rightarrow> Dependent list" where
  "dedupLoop existingDependents index parsedDependents =
     (if index < length parsedDependents then
        (if parsedDependents ! index \<in> set existingDependents
         then dedupLoop existingDependents (index + 1) (splice1 index parsedDependents)
         else dedupLoop existingDependents (index + 1) parsedDependents)
      else parsedDependents)"
  by pat_completeness auto
termination
  by (relation "measure (\<lambda>(ex, index, ps). length ps - index)") (auto simp: splice1_def)

declare dedupLoop.simps [simp del]

definition removeDuplicateDependents :: "store \<Rightarrow> Dependent list \<Rightarrow> error + Dependent list" where
  "removeDuplicateDependents f parsedDependents =
     (case getDependentsFromFile f of
        Inl e \<Rightarrow> Inl e
      | Inr existingDependents \<Rightarrow> Inr (dedupLoop existingDependents 0 parsedDependents))"

text \<open>
  The store's append with deduplication, as the page loop performs it on a batch that is
  not stamped: the deduplication of lines 197 to 200 followed by the save of lines 212 to
  216 without overwriting.
\<close>

definition appendDeduped :: "store \<Rightarrow> Dependent list \<Rightarrow> error + store" where
  "appendDeduped f batch =
     (case removeDuplicateDependents f batch of
        Inl e \<Rightarrow> Inl e
      | Inr deduped \<Rightarrow> saveDependentsToFile f deduped False)"


section \<open>Crawl Controller\<close>

text \<open>
  The state of a run: the page the browser shows, the dependents file, and two histories
  kept for the statements below, the calls of \<open>saveDependentsToFile\<close> that returned (the
  overwrite flag and the batch of each) and the URLs given to \<open>page.goto\<close>. The web is a
  partial function from URLs to pages; \<open>page.goto\<close> fails where it is undefined.
\<close>

record crawler =
  current :: Page
  stored :: store
  saves :: "(bool \<times> Dependent list) list"
  gotos :: "jsstring list"

type_synonym web = "jsstring \<Rightarrow> Page option"

text \<open>
  How a call ends: \<open>DONE\<close> is the \<open>break\<close> of line 224, \<open>ABORTED\<close> an error caught and logged
  by the \<open>catch\<close> of line 230, \<open>EXITED\<close> the \<open>exit(0)\<close> of line 252, \<open>RAISED\<close> an error that
  leaves \<open>resumeCrawlFromFile\<close> or \<open>getArgs\<close>.
\<close>

datatype outcome = DONE | ABORTED error | EXITED | RAISED error

definition stamp :: "link \<Rightarrow> Dependent list \<Rightarrow> Dependent list" where
  "stamp previousPageUrl ds =
     (case previousPageUrl of
        Href u \<Rightarrow> map (\<lambda>d. d\<lparr>previousGithubDependentsPageUrl := Some u\<rparr>) ds
      | _ \<Rightarrow> ds)"

text \<open>
  The \<open>while (true)\<close> of \<open>startCrawl\<close> can run for ever on a web whose next links form a
  cycle, so the loop takes fuel, one unit per page; \<open>None\<close> is a run that has not ended
  within the fuel. The argument \<open>ow\<close> is the variable \<open>_overwriteDependentsFile\<close>.
\<close>

fun startCrawl :: "nat \<Rightarrow> web \<Rightarrow> bool \<Rightarrow> crawler \<Rightarrow> (outcome \<times> crawler) option" where
  "startCrawl 0 w ow st = None"
| "startCrawl (Suc n) w ow st =
     (case parseDependents (current st) of
        None \<Rightarrow> Some (ABORTED UnableToParseDependents, st)
      | Some (parsed, reported) \<Rightarrow>
     (case removeDuplicateDependents (stored st) parsed of
        Inl e \<Rightarrow> Some (ABORTED e, st)
      | Inr deduped \<Rightarrow>
     (case getPreviousDependentsPageUrl (current st) of
        Inl e \<Rightarrow> Some (ABORTED e, st)
      | Inr previousPageUrl \<Rightarrow>
     (case saveDependentsToFile (stored st) (stamp previousPageUrl deduped) ow of
        Inl e \<Rightarrow> Some (ABORTED e, st)
      | Inr f' \<Rightarrow>
     (let st1 = st\<lparr>stored := f', saves := saves st @ [(ow, stamp previousPageUrl deduped)]\<rparr> in
     (case getNextDependentsPageUrl (current st) of
        Inl e \<Rightarrow> Some (ABORTED e, st1)
      | Inr Null \<Rightarrow> Some (DONE, st1)
      | Inr Undefined \<Rightarrow> Some (ABORTED NextUrlUndefined, st1)
      | Inr (Href nextPageUrl) \<Rightarrow>
          (let st2 = st1\<lparr>gotos := gotos st1 @ [nextPageUrl]\<rparr> in
           (case w nextPageUrl of
              None \<Rightarrow> Some (ABORTED GotoFailed, st2)
            | Some p \<Rightarrow> startCrawl n w False (st2\<lparr>current := p\<rparr>)))))))))"

definition resumeCrawlFromFile :: "nat \<Rightarrow> web \<Rightarrow> crawler \<Rightarrow> (outcome \<times> crawler) option" where
  "resumeCrawlFromFile n w st =
     (case getDependentsFromFile (stored st) of
        Inl e \<Rightarrow> Some (RAISED e, st)
      | Inr dependentsFileJson \<Rightarrow>
     (case rev dependentsFileJson of
        [] \<Rightarrow> Some (RAISED FileAppearsEmpty, st)
      | lastDependent # _ \<Rightarrow>
     (case previousGithubDependentsPageUrl lastDependent of
        None \<Rightarrow> startCrawl n w False st
      | Some u \<Rightarrow>
          (let st1 = st\<lparr>gotos := gotos st @ [u]\<rparr> in
           (case w u of
              None \<Rightarrow> Some (RAISED GotoFailed, st1)
            | Some p \<Rightarrow>
                (case getNextDependentsPageUrl p of
                   Inl e \<Rightarrow> Some (RAISED e, st1\<lparr>current := p\<rparr>)
                 | Inr Null \<Rightarrow> Some (EXITED, st1\<lparr>current := p\<rparr>)
                 | Inr Undefined \<Rightarrow> Some (RAISED NextUrlUndefined, st1\<lparr>current := p\<rparr>)
                 | Inr (Href nextPageUrl) \<Rightarrow>
                     (let st2 = st1\<lparr>gotos := gotos st1 @ [nextPageUrl]\<rparr> in
                      (case w nextPageUrl of
                         None \<Rightarrow> Some (RAISED GotoFailed, st2\<lparr>current := p\<rparr>)
                       | Some q \<Rightarrow> startCrawl n w False (st2\<lparr>current := q\<rparr>)))))))))"


section \<open>Invocation: \<open>getArgs\<close> and \<open>start\<close>\<close>

text \<open>
  \<open>args\<close> is \<open>process.argv.slice(2)\<close>. The destructuring of line 270 gives \<open>undefined\<close>
  (\<open>None\<close>) for a position the array does not have. \<open>Boolean\<close> of \<open>undefined\<close> and of the
  empty string is false, of any other string true.
\<close>

definition arg :: "jsstring list \<Rightarrow> nat \<Rightarrow> jsstring option" where
  "arg args i = (if i < length args then Some (args ! i) else None)"

definition Boolean :: "jsstring option \<Rightarrow> bool" where
  "Boolean v = (case v of None \<Rightarrow> False | Some s \<Rightarrow> s \<noteq> [])"

definition getArgs :: "jsstring list \<Rightarrow> error + (jsstring \<times> jsstring \<times> bool)" where
  "getArgs args =
     (case arg args 0 of
        None \<Rightarrow> Inl BadOwnerAndRepo
      | Some githubOwnerAndRepo \<Rightarrow>
          if exec owner_repo_rx githubOwnerAndRepo = None then Inl BadOwnerAndRepo
          else
            (case arg args 1 of
               None \<Rightarrow> Inl BadDependentsFile
             | Some dependentsFile \<Rightarrow>
                 if exec json_rx dependentsFile = None then Inl BadDependentsFile
                 else if arg args 2 \<noteq> Some (js ''false'') \<and> arg args 2 \<noteq> Some (js ''true'')
                         \<and> arg args 2 \<noteq> None
                 then Inl BadResumeCrawl
                 else Inr (githubOwnerAndRepo, dependentsFile, Boolean (arg args 2))))"

text \<open>The page of a browser that has not navigated yet has neither container nor links.\<close>

definition blank :: Page where
  "blank = \<lparr> box = None, paginate = [] \<rparr>"

definition launch :: "store \<Rightarrow> crawler" where
  "launch f = \<lparr> current = blank, stored = f, saves = [], gotos = [] \<rparr>"

definition dependents_url :: "jsstring \<Rightarrow> jsstring" where
  "dependents_url githubOwnerAndRepo =
     js ''https://github.com/'' @ githubOwnerAndRepo @ js ''/network/dependents''"

text \<open>
  \<open>start\<close> on the arguments and on the content of the file that the second argument names.
  Line 312 always returns: it overwrites.
\<close>

definition start :: "nat \<Rightarrow> web \<Rightarrow> jsstring list \<Rightarrow> store \<Rightarrow> (outcome \<times> crawler) option" where
  "start n w args f =
     (case getArgs args of
        Inl e \<Rightarrow> Some (RAISED e, launch f)
      | Inr (githubOwnerAndRepo, dependentsFile, resumeCrawl) \<Rightarrow>
          if resumeCrawl then resumeCrawlFromFile n w (launch f)
          else
            (let st1 = (launch f)\<lparr>gotos := [dependents_url githubOwnerAndRepo]\<rparr> in
             (case w (dependents_url githubOwnerAndRepo) of
                None \<Rightarrow> Some (RAISED GotoFailed, st1)
              | Some p \<Rightarrow>
                  (case saveDependentsToFile f [] True of
                     Inl e \<Rightarrow> Some (RAISED e, st1\<lparr>current := p\<rparr>)
                   | Inr f' \<Rightarrow>
                       startCrawl n w True
                         (st1\<lparr>current := p, stored := f', saves := [(True, [])]\<rparr>)))))"


section \<open>Concrete inputs\<close>

text \<open>
  Two records, and a listing of two pages with one row each, as GitHub renders the
  pagination: on the first page a disabled button and a link to the next page, on the last
  page a link to the previous page and a disabled button.
\<close>

definition depA :: Dependent where
  "depA = \<lparr> owner = js ''a'', repo = js ''x'', stars = Num 1, forks = Num 0,
            previousGithubDependentsPageUrl = None \<rparr>"

definition depB :: Dependent where
  "depB = \<lparr> owner = js ''b'', repo = js ''y'', stars = Num 2, forks = Num 0,
            previousGithubDependentsPageUrl = None \<rparr>"

definition url1 :: jsstring where
  "url1 = js ''https://github.com/o/r/network/dependents''"

definition url2 :: jsstring where
  "url2 = js ''https://github.com/o/r/network/dependents?page=2''"

definition depB2 :: Dependent where
  "depB2 = depB \<lparr> previousGithubDependentsPageUrl := Some url1 \<rparr>"

definition header :: child where
  "header = \<lparr> is_div = True, textContent = js ''Repositories'' \<rparr>"

definition page1 :: Page where
  "page1 = \<lparr> box = Some [header, \<lparr> is_div = True, textContent = js ''a / x 1 0'' \<rparr>],
             paginate = [\<lparr> tag = BUTTON, disabled = Some (js ''disabled''), href = None \<rparr>,
                         \<lparr> tag = A, disabled = None, href = Some url2 \<rparr>] \<rparr>"

definition page2 :: Page where
  "page2 = \<lparr> box = Some [header, \<lparr> is_div = True, textContent = js ''b / y 2 0'' \<rparr>],
             paginate = [\<lparr> tag = A, disabled = None, href = Some url1 \<rparr>,
                         \<lparr> tag = BUTTON, disabled = Some (js ''disabled''), href = None \<rparr>] \<rparr>"

definition web2 :: web where
  "web2 u = (if u = url1 then Some page1 else if u = url2 then Some page2 else None)"



definition at_page1 :: crawler where
  "at_page1 = \<lparr> current = page1, stored = Some [], saves = [(True, [])], gotos = [url1] \<rparr>"


text \<open>
  A page with a header, two rows that match, a row whose text does not match and a child
  that is not a \<open>div\<close>.
\<close>

definition rows3 :: "child list" where
  "rows3 = [\<lparr> is_div = True, textContent = js ''Repositories'' \<rparr>,
            \<lparr> is_div = True, textContent = js '' octo / cat  1,234 56 '' \<rparr>,
            \<lparr> is_div = True, textContent = js ''garbage'' \<rparr>,
            \<lparr> is_div = False, textContent = js ''a / x 1 0'' \<rparr>,
            \<lparr> is_div = True, textContent = js ''b / y 2 0'' \<rparr>]"

definition page3 :: Page where
  "page3 = \<lparr> box = Some rows3, paginate = [] \<rparr>"

text \<open>A listing of a single page: both pagination controls are disabled buttons.\<close>

definition page4 :: Page where
  "page4 = \<lparr> box = Some [header, \<lparr> is_div = True, textContent = js ''a / x 1 0'' \<rparr>],
             paginate = [\<lparr> tag = BUTTON, disabled = Some (js ''disabled''), href = None \<rparr>,
                         \<lparr> tag = BUTTON, disabled = Some (js ''disabled''), href = None \<rparr>] \<rparr>"

definition web4 :: web where
  "web4 u = (if u = url1 then Some page4 else None)"

definition depOcto :: Dependent where
  "depOcto = \<lparr> owner = js ''octo'', repo = js ''cat'', stars = Num 1234, forks = Num 56,
               previousGithubDependentsPageUrl = None \<rparr>"


section \<open>Evaluation of the concrete inputs\<close>

lemmas rx_eval = js_def is_space_def is_digit_def is_word_def is_dot_def lit_def not_space_def
  num_rx_def row_rx_def owner_repo_rx_def json_rx_def

lemmas page_eval = parseDependents_def parseRow_def div_nth_child_def remove_spaces_def
  remove_commas_def parseInt_def a_nth_child_def first_with_tag_def link_of_def
  getPreviousDependentsPageUrl_def getNextDependentsPageUrl_def parseRows.simps

lemma js_nonempty: "js ''true'' \<noteq> []" "js ''false'' \<noteq> []"
  by (simp_all add: js_def)

lemma parse_page1: "parseDependents page1 = Some ([depA], [])"
  by (simp add: page1_def header_def depA_def page_eval rx_eval)

lemma parse_page2: "parseDependents page2 = Some ([depB], [])"
  by (simp add: page2_def header_def depB_def page_eval rx_eval)

lemma urls: "url1 \<noteq> url2" "url2 \<noteq> url1" "dependents_url (js ''o/r'') = url1"
  by (simp_all add: url1_def url2_def dependents_url_def js_def)

lemma web2_eval: "web2 url1 = Some page1" "web2 url2 = Some page2"
  by (simp_all add: web2_def urls)

lemma args_fresh: "getArgs [js ''o/r'', js ''d.json''] = Inr (js ''o/r'', js ''d.json'', False)"
  by (simp add: getArgs_def arg_def Boolean_def rx_eval)

lemma args_resume:
  "getArgs [js ''o/r'', js ''d.json'', js ''true''] = Inr (js ''o/r'', js ''d.json'', True)"
  by (simp add: getArgs_def arg_def Boolean_def rx_eval)

lemma args_false:
  "getArgs [js ''o/r'', js ''d.json'', js ''false''] = Inr (js ''o/r'', js ''d.json'', True)"
  by (simp add: getArgs_def arg_def Boolean_def rx_eval)

lemma nav_page1:
  "getPreviousDependentsPageUrl page1 = Inr Null"
  "getNextDependentsPageUrl page1 = Inr (Href url2)"
  by (simp_all add: page1_def page_eval)

lemma nav_page2:
  "getPreviousDependentsPageUrl page2 = Inr (Href url1)"
  "getNextDependentsPageUrl page2 = Inr Null"
  by (simp_all add: page2_def page_eval)

lemma five_Suc: "(5::nat) = Suc (Suc (Suc (Suc (Suc 0))))"
  by simp

lemma dep_distinct: "depB \<noteq> depA" "depB \<noteq> depB2" "depA \<noteq> depB2"
  by (simp_all add: depA_def depB_def depB2_def js_def)

lemma dep_prev:
  "previousGithubDependentsPageUrl depB2 = Some url1"
  "previousGithubDependentsPageUrl depA = None"
  by (simp_all add: depB2_def depA_def)

lemma dedup_eval:
  "removeDuplicateDependents (Some []) [depA] = Inr [depA]"
  "removeDuplicateDependents (Some [depA]) [depB] = Inr [depB]"
  "removeDuplicateDependents (Some [depA, depB2]) [depB] = Inr [depB]"
  by (simp_all add: removeDuplicateDependents_def getDependentsFromFile_def dep_distinct
      dedupLoop.simps)

lemma stamp_eval: "stamp Null ds = ds" "stamp (Href url1) [depB] = [depB2]"
  by (simp_all add: stamp_def depB2_def)

lemma fresh_run:
  "start 5 web2 [js ''o/r'', js ''d.json''] None =
     Some (DONE, \<lparr> current = page2, stored = Some [depA, depB2],
                   saves = [(True, []), (True, [depA]), (False, [depB2])],
                   gotos = [url1, url2] \<rparr>)"
  by (simp add: start_def args_fresh urls launch_def web2_eval saveDependentsToFile_def
      getDependentsFromFile_def five_Suc parse_page1 parse_page2 nav_page1 nav_page2
      dedup_eval stamp_eval)




lemma nav_blank:
  "getPreviousDependentsPageUrl blank = Inl NoPreviousButton"
  "getNextDependentsPageUrl blank = Inl NoNextButton"
  by (simp_all add: blank_def page_eval)

lemma save_eval:
  "saveDependentsToFile f ds True = Inr (Some ds)"
  "saveDependentsToFile (Some S) ds False = Inr (Some (S @ ds))"
  by (simp_all add: saveDependentsToFile_def getDependentsFromFile_def)

lemma resume_run:
  "start 5 web2 [js ''o/r'', js ''d.json'', js ''true''] (Some [depA, depB2]) =
     Some (DONE, \<lparr> current = page2, stored = Some [depA, depB2, depB2],
                   saves = [(False, [depB2])], gotos = [url1, url2] \<rparr>)"
  by (simp add: start_def args_resume launch_def web2_eval save_eval five_Suc parse_page2
      nav_page1 nav_page2 dedup_eval stamp_eval resumeCrawlFromFile_def
      getDependentsFromFile_def dep_prev)

lemma loop_from_page1:
  "startCrawl 5 web2 True at_page1 =
     Some (DONE, \<lparr> current = page2, stored = Some [depA, depB2],
                   saves = [(True, []), (True, [depA]), (False, [depB2])],
                   gotos = [url1, url2] \<rparr>)"
  by (simp add: at_page1_def web2_eval save_eval five_Suc parse_page1 parse_page2
      nav_page1 nav_page2 dedup_eval stamp_eval)



lemma parse_page4: "parseDependents page4 = Some ([depA], [])"
  by (simp add: page4_def header_def depA_def page_eval rx_eval)

lemma nav_page4:
  "getPreviousDependentsPageUrl page4 = Inr Null"
  "getNextDependentsPageUrl page4 = Inl NoNextButton"
  by (simp_all add: page4_def page_eval)


lemma web4_eval: "web4 url1 = Some page4"
  by (simp add: web4_def)


section \<open>The page extractor\<close>

lemma plus_all_pres:
  "(\<forall>s s'. P s \<longrightarrow> s' \<in> set (f s) \<longrightarrow> P s') \<Longrightarrow> (\<forall>s \<in> set sts. P s)
     \<Longrightarrow> (\<forall>s \<in> set (plus_all f len sts). P s)"
proof (induction f len sts rule: plus_all.induct)
  case (1 f len)
  then show ?case by simp
next
  case (2 f len st' rest)
  from "2.prems" have here: "P st'" and others: "\<forall>s \<in> set rest. P s" by simp_all
  from "2.prems"(1) here have "\<forall>s \<in> set (f st'). P s" by blast
  then have deeper: "length (fst st') < len \<Longrightarrow>
      \<forall>s \<in> set (plus_all f (length (fst st')) (f st')). P s"
    using "2.IH"(1) "2.prems"(1) by blast
  from others have "\<forall>s \<in> set (plus_all f len rest). P s"
    using "2.IH"(2) "2.prems"(1) by blast
  with here deeper show ?case by (auto split: if_splits)
qed

lemma rmatch_groups:
  "st' \<in> set (rmatch r st) \<Longrightarrow> captured st \<union> groups r \<subseteq> captured st'"
proof (induction r arbitrary: st st')
  case (Cls p)
  then have "snd st' = snd st"
    by (auto split: list.splits if_splits)
  then show ?case by (simp add: captured_def)
next
  case (Seq a b)
  then obtain m where m: "m \<in> set (rmatch a st)" "st' \<in> set (rmatch b m)" by auto
  from Seq.IH(1)[OF m(1)] have "captured st \<subseteq> captured m" "groups a \<subseteq> captured m"
    by simp_all
  moreover from Seq.IH(2)[OF m(2)] have "captured m \<subseteq> captured st'" "groups b \<subseteq> captured st'"
    by simp_all
  ultimately show ?case by (simp only: groups.simps) blast
next
  case (Plus a)
  let ?P = "\<lambda>s. captured st \<union> groups a \<subseteq> captured s"
  have step: "\<forall>s s'. ?P s \<longrightarrow> s' \<in> set (rmatch a s) \<longrightarrow> ?P s'"
  proof (intro allI impI)
    fix s s' assume p: "?P s" and s': "s' \<in> set (rmatch a s)"
    from Plus.IH[OF s'] have "captured s \<subseteq> captured s'" by simp
    with p show "?P s'" by blast
  qed
  have base: "\<forall>s \<in> set (rmatch a st). ?P s"
    using Plus.IH by blast
  have "\<forall>s \<in> set (plus_all (rmatch a) (length (fst st)) (rmatch a st)). ?P s"
    by (rule plus_all_pres[where P = ?P, OF step base])
  with Plus.prems show ?case by simp
next
  case (Opt a)
  from Opt.prems have "st' \<in> set (rmatch a st) \<or> st' = st" by auto
  then show ?case
  proof
    assume "st' \<in> set (rmatch a st)"
    from Opt.IH[OF this] show ?thesis by simp
  next
    assume "st' = st"
    then show ?thesis by simp
  qed
next
  case (Grp k a)
  then obtain m where m: "m \<in> set (rmatch a st)"
    and st': "snd st' = (k, take (length (fst st) - length (fst m)) (fst st)) # snd m"
    by auto
  from st' have "captured st' = insert k (captured m)"
    by (simp add: captured_def)
  with Grp.IH[OF m] show ?case by auto
qed

lemma exec_groups: "exec r s = Some res \<Longrightarrow> groups r \<subseteq> fst ` set res"
proof (induction r s rule: exec.induct)
  case (1 r)
  show ?case
  proof (cases "rmatch r ([], [])")
    case Nil
    with 1 show ?thesis by simp
  next
    case (Cons m ms)
    then have "m \<in> set (rmatch r ([], []))" by simp
    from rmatch_groups[OF this] have "groups r \<subseteq> captured m" by simp
    moreover from Cons 1 have "res = snd m" by simp
    ultimately show ?thesis by (simp add: captured_def)
  qed
next
  case (2 r x xs)
  show ?case
  proof (cases "rmatch r (x # xs, [])")
    case Nil
    with 2 show ?thesis by simp
  next
    case (Cons m ms)
    then have "m \<in> set (rmatch r (x # xs, []))" by simp
    from rmatch_groups[OF this] have "groups r \<subseteq> captured m" by simp
    moreover from Cons "2.prems" have "res = snd m" by simp
    ultimately show ?thesis by (simp add: captured_def)
  qed
qed

lemma groups_row_rx: "groups row_rx = {1, 2, 3, 4, 5}"
  by (auto simp: row_rx_def num_rx_def lit_def not_space_def)

lemma row_groups_present:
  assumes "exec row_rx s = Some res"
  shows "\<exists>r1 r2 r3 r5. map_of res 1 = Some r1 \<and> map_of res 2 = Some r2
           \<and> map_of res 3 = Some r3 \<and> map_of res 5 = Some r5"
proof -
  from exec_groups[OF assms] have "{1, 2, 3, 5} \<subseteq> fst ` set res"
    by (simp add: groups_row_rx)
  then have "map_of res 1 \<noteq> None" "map_of res 2 \<noteq> None" "map_of res 3 \<noteq> None" "map_of res 5 \<noteq> None"
    by (simp_all add: map_of_eq_None_iff)
  then show ?thesis by auto
qed

lemma row_dependent_iff: "row_dependent c \<noteq> None \<longleftrightarrow> row_matches c"
proof (cases "is_div c")
  case False
  then show ?thesis by (simp add: row_dependent_def row_matches_def parseRow_def div_nth_child_def)
next
  case True
  show ?thesis
  proof (cases "exec row_rx (textContent c)")
    case None
    with True show ?thesis
      by (simp add: row_dependent_def row_matches_def parseRow_def div_nth_child_def)
  next
    case (Some res)
    from row_groups_present[OF Some] obtain r1 r2 r3 r5 where
      "map_of res 1 = Some r1" "map_of res 2 = Some r2" "map_of res 3 = Some r3" "map_of res 5 = Some r5"
      by blast
    with True Some show ?thesis
      by (simp add: row_dependent_def row_matches_def parseRow_def div_nth_child_def)
  qed
qed

lemma parseRow_nth:
  "1 \<le> index \<Longrightarrow> index \<le> length cs \<Longrightarrow> parseRow cs index = parseRow [cs ! (index - 1)] 1"
  by (simp add: parseRow_def div_nth_child_def)

lemma parsed_at_row: "1 \<le> index \<Longrightarrow> index \<le> length cs \<Longrightarrow> parsed_at cs index = row_dependent (cs ! (index - 1))"
  using parseRow_nth[of index cs] by (simp add: parsed_at_def row_dependent_def)

lemma parseRows_eq:
  "parseRows cs n index ds rs =
     (ds @ List.map_filter (parsed_at cs) [index..<Suc n],
      rs @ List.map_filter (reported_at cs) [index..<Suc n])"
proof (induction cs n index ds rs rule: parseRows.induct)
  case (1 cs n index ds rs)
  show ?case
  proof (cases "index \<le> n")
    case False
    then show ?thesis by (subst parseRows.simps) simp
  next
    case True
    then have upt: "[index..<Suc n] = index # [index + 1..<Suc n]"
      by (simp add: upt_conv_Cons)
    show ?thesis
    proof (cases "parseRow cs index")
      case (Inl t)
      then have here: "parsed_at cs index = None" "reported_at cs index = Some (index, t)"
        by (simp_all add: parsed_at_def reported_at_def)
      from True Inl 1(1)[OF True Inl] show ?thesis
        by (subst parseRows.simps) (simp add: upt here del: upt_Suc)
    next
      case (Inr d)
      then have here: "parsed_at cs index = Some d" "reported_at cs index = None"
        by (simp_all add: parsed_at_def reported_at_def)
      from True Inr 1(2)[OF True Inr] show ?thesis
        by (subst parseRows.simps) (simp add: upt here del: upt_Suc)
    qed
  qed
qed

lemma tl_as_indices: "map (\<lambda>index. cs ! (index - 1)) [2..<Suc (length cs)] = tl cs"
  by (rule nth_equalityI) (simp_all add: nth_tl del: upt_Suc)

lemma map_filter_cong_set:
  "(\<And>x. x \<in> set xs \<Longrightarrow> f x = g x) \<Longrightarrow> List.map_filter f xs = List.map_filter g xs"
  by (induction xs) (auto split: option.splits)

lemma map_filter_map': "List.map_filter f (map g xs) = List.map_filter (\<lambda>x. f (g x)) xs"
  by (induction xs) (auto split: option.splits)

lemma parsed_rows_tl:
  "List.map_filter (parsed_at cs) [2..<Suc (length cs)] = List.map_filter row_dependent (tl cs)"
proof -
  have "List.map_filter (parsed_at cs) [2..<Suc (length cs)]
      = List.map_filter (\<lambda>index. row_dependent (cs ! (index - 1))) [2..<Suc (length cs)]"
    by (rule map_filter_cong_set) (auto simp: parsed_at_row)
  also have "\<dots> = List.map_filter row_dependent (map (\<lambda>index. cs ! (index - 1)) [2..<Suc (length cs)])"
    by (simp add: map_filter_map')
  finally show ?thesis by (simp only: tl_as_indices)
qed

lemma length_map_filter: "length (List.map_filter f xs) = length (filter (\<lambda>x. f x \<noteq> None) xs)"
  by (simp add: List.map_filter_def)

lemma reported_indices:
  "map fst (List.map_filter (reported_at cs) xs) = filter (\<lambda>index. parsed_at cs index = None) xs"
  by (induction xs) (auto simp: reported_at_def parsed_at_def split: sum.splits)

lemma row_dependent_None: "row_dependent c = None \<longleftrightarrow> \<not> row_matches c"
  using row_dependent_iff[of c] by blast

lemma reported_rows:
  "map fst (List.map_filter (reported_at cs) [2..<Suc (length cs)])
     = filter (\<lambda>index. \<not> row_matches (cs ! (index - 1))) [2..<Suc (length cs)]"
proof -
  have "filter (\<lambda>index. parsed_at cs index = None) [2..<Suc (length cs)]
      = filter (\<lambda>index. \<not> row_matches (cs ! (index - 1))) [2..<Suc (length cs)]"
  proof (rule filter_cong[OF refl])
    fix index assume "index \<in> set [2..<Suc (length cs)]"
    then have "1 \<le> index" "index \<le> length cs" by auto
    then have "parsed_at cs index = row_dependent (cs ! (index - 1))"
      by (rule parsed_at_row)
    then show "(parsed_at cs index = None) = (\<not> row_matches (cs ! (index - 1)))"
      by (simp only: row_dependent_None)
  qed
  then show ?thesis by (simp only: reported_indices)
qed

lemma parseDependents_box:
  "box page = Some cs \<Longrightarrow> parseDependents page =
     Some (List.map_filter (parsed_at cs) [2..<Suc (length cs)],
           List.map_filter (reported_at cs) [2..<Suc (length cs)])"
  by (simp add: parseDependents_def parseRows_eq)

lemma malformed_row_skipped:
  "\<not> row_matches m \<Longrightarrow>
     List.map_filter row_dependent (xs @ m # ys) = List.map_filter row_dependent (xs @ ys)"
  using row_dependent_iff[of m] by (induction xs) (auto split: option.splits)

text \<open>
  C4. On a page whose container has the children \<open>cs\<close>, \<open>parseDependents\<close> returns; the loop
  body runs at the indices 2 to \<open>length cs\<close> and at no other, so the first child is never
  read; the result holds, in page order, what the body makes of each child after the first,
  which is a record exactly for the rows that match the pattern; the rows that do not match
  are the ones reported, and none of them ends the loop; and a row that does not match,
  put anywhere among the rows, leaves the records returned as they are.
\<close>

theorem parseDependents_rows:
  assumes "box page = Some cs"
  shows "\<exists>dependents reported. parseDependents page = Some (dependents, reported)
     \<and> dependents = List.map_filter (parsed_at cs) [2..<Suc (length cs)]
     \<and> reported = List.map_filter (reported_at cs) [2..<Suc (length cs)]
     \<and> dependents = List.map_filter row_dependent (tl cs)
     \<and> length dependents = length (filter row_matches (tl cs))
     \<and> map fst reported = filter (\<lambda>index. \<not> row_matches (cs ! (index - 1))) [2..<Suc (length cs)]
     \<and> (\<forall>c. row_dependent c \<noteq> None \<longleftrightarrow> row_matches c)
     \<and> (\<forall>h xs m ys ps. \<not> row_matches m \<longrightarrow>
           map_option fst (parseDependents \<lparr> box = Some (h # xs @ m # ys), paginate = ps \<rparr>)
         = map_option fst (parseDependents \<lparr> box = Some (h # xs @ ys), paginate = ps \<rparr>))"
proof -
  let ?ds = "List.map_filter (parsed_at cs) [2..<Suc (length cs)]"
  let ?rs = "List.map_filter (reported_at cs) [2..<Suc (length cs)]"
  have 1: "parseDependents page = Some (?ds, ?rs)"
    by (rule parseDependents_box[OF assms])
  have 2: "?ds = List.map_filter row_dependent (tl cs)"
    by (rule parsed_rows_tl)
  have 3: "length ?ds = length (filter row_matches (tl cs))"
    by (simp only: 2 length_map_filter row_dependent_iff)
  have 4: "map fst ?rs = filter (\<lambda>index. \<not> row_matches (cs ! (index - 1))) [2..<Suc (length cs)]"
    by (rule reported_rows)
  have 5: "\<forall>c. row_dependent c \<noteq> None \<longleftrightarrow> row_matches c"
    by (simp only: row_dependent_iff) simp
  have 6: "\<forall>h xs m ys ps. \<not> row_matches m \<longrightarrow>
           map_option fst (parseDependents \<lparr> box = Some (h # xs @ m # ys), paginate = ps \<rparr>)
         = map_option fst (parseDependents \<lparr> box = Some (h # xs @ ys), paginate = ps \<rparr>)"
  proof (intro allI impI)
    fix h xs m ys ps assume m: "\<not> row_matches m"
    have "\<And>rows. map_option fst (parseDependents \<lparr> box = Some (h # rows), paginate = ps \<rparr>)
        = Some (List.map_filter row_dependent rows)"
    proof -
      fix rows
      have "box \<lparr> box = Some (h # rows), paginate = ps \<rparr> = Some (h # rows)" by simp
      from parseDependents_box[OF this] parsed_rows_tl[of "h # rows"]
      show "map_option fst (parseDependents \<lparr> box = Some (h # rows), paginate = ps \<rparr>)
        = Some (List.map_filter row_dependent rows)"
        by (simp del: upt_Suc)
    qed
    then show "map_option fst (parseDependents \<lparr> box = Some (h # xs @ m # ys), paginate = ps \<rparr>)
         = map_option fst (parseDependents \<lparr> box = Some (h # xs @ ys), paginate = ps \<rparr>)"
      by (simp only: malformed_row_skipped[OF m])
  qed
  from 1 2 3 4 5 6 show ?thesis by blast
qed

lemma parse_page3:
  "parseDependents page3 = Some ([depOcto, depB], [(3, js ''garbage''), (4, [])])"
  by (simp add: page3_def rows3_def depOcto_def depB_def page_eval rx_eval parseRows.simps)

theorem parseDependents_rows_witness:
  "box page3 = Some rows3
   \<and> parseDependents page3 = Some ([depOcto, depB], [(3, js ''garbage''), (4, [])])
   \<and> List.map_filter row_dependent (tl rows3) = [depOcto, depB]
   \<and> length (filter row_matches (tl rows3)) = 2"
proof -
  have b: "box page3 = Some rows3"
    by (simp add: page3_def)
  from parseDependents_rows[OF b] parse_page3 b show ?thesis
    by (elim exE conjE) simp
qed


section \<open>The pagination navigator\<close>

text \<open>
  The two boundaries the navigator does recognise. A previous control that is found (the
  first child when it is a link, else the first button) and carries \<open>disabled="disabled"\<close>
  gives \<open>null\<close>. When no link is the second child and the previous link exists, the next link
  is \<open>null\<close>, and a turn of the loop on such a page, with the container present and the
  store readable, ends the crawl with \<open>DONE\<close>.
\<close>

lemma getPrevious_disabled:
  assumes "a_nth_child (paginate page) 1 = Some el
           \<or> a_nth_child (paginate page) 1 = None \<and> first_with_tag BUTTON (paginate page) = Some el"
    and "disabled el = Some (js ''disabled'')"
  shows "getPreviousDependentsPageUrl page = Inr Null"
  using assms by (auto simp: getPreviousDependentsPageUrl_def link_of_def)

lemma getNext_last_page:
  assumes "a_nth_child (paginate page) 2 = None"
    and "getPreviousDependentsPageUrl page = Inr (Href u)"
  shows "getNextDependentsPageUrl page = Inr Null"
  using assms by (simp add: getNextDependentsPageUrl_def)

lemma save_Some:
  "saveDependentsToFile (Some S) batch ow = Inr (Some ((if ow then [] else S) @ batch))"
  by (simp add: saveDependentsToFile_def getDependentsFromFile_def)

lemma dedup_Some:
  "removeDuplicateDependents (Some S) parsed = Inr (dedupLoop S 0 parsed)"
  by (simp add: removeDuplicateDependents_def getDependentsFromFile_def)

lemma dedup_None: "removeDuplicateDependents None parsed = Inl StoreUnreadable"
  by (simp add: removeDuplicateDependents_def getDependentsFromFile_def)

lemma startCrawl_last_page_DONE:
  assumes "box (current st) = Some cs" and "stored st = Some S"
    and "a_nth_child (paginate (current st)) 2 = None"
    and "getPreviousDependentsPageUrl (current st) = Inr (Href u)"
  shows "\<exists>st'. startCrawl (Suc n) w ow st = Some (DONE, st')"
proof -
  have p: "parseDependents (current st) = Some (parseRows cs (length cs) 2 [] [])"
    by (simp add: parseDependents_def assms(1))
  from getNext_last_page[OF assms(3,4)] have nx: "getNextDependentsPageUrl (current st) = Inr Null" .
  show ?thesis
    by (simp add: p assms(2,4) dedup_Some save_Some nx split: prod.splits)
qed

text \<open>
  C5. Claimed: the navigator tells a boundary from a failure, and raises only when it
  cannot tell which applies. On \<open>page4\<close>, the only page of a listing, both controls are
  there and both are disabled buttons, so no next page exists. The previous lookup falls
  back to the button and gives \<open>null\<close>. The next lookup finds no link as second child,
  gets \<open>null\<close> for the previous link, and then looks for a link only, never for a
  button: it raises, and a fresh run on this listing saves the page and ends \<open>ABORTED\<close>,
  not \<open>DONE\<close>.
\<close>

theorem next_lookup_raises_on_single_page:
  "getPreviousDependentsPageUrl page4 = Inr Null
   \<and> getNextDependentsPageUrl page4 = Inl NoNextButton
   \<and> start 5 web4 [js ''o/r'', js ''d.json''] None =
       Some (ABORTED NoNextButton,
             \<lparr> current = page4, stored = Some [depA],
               saves = [(True, []), (True, [depA])], gotos = [url1] \<rparr>)"
  by (simp add: nav_page4 start_def args_fresh urls launch_def web4_eval save_eval five_Suc
      parse_page4 dedup_eval stamp_eval)


section \<open>The store's append with deduplication\<close>

text \<open>
  C1. Claimed: for every store \<open>S\<close> and batch \<open>B\<close> the append with deduplication leaves
  \<open>S\<close> followed by the records of \<open>B\<close> that are equal to no record of \<open>S\<close>. The program
  removes from the array it iterates, so the record after a removed one is never compared:
  on the store \<open>[depA, depB]\<close> and the batch \<open>[depA, depB]\<close> it writes \<open>depB\<close> a second
  time, where the claim leaves the store as it was.
\<close>

theorem appendDeduped_skips_after_removal:
  "appendDeduped (Some [depA, depB]) [depA, depB] = Inr (Some [depA, depB, depB])
   \<and> appendDeduped (Some [depA, depB]) [depA, depB]
       \<noteq> Inr (Some ([depA, depB] @ filter (\<lambda>d. d \<notin> set [depA, depB]) [depA, depB]))"
  by (simp add: appendDeduped_def removeDuplicateDependents_def getDependentsFromFile_def
      saveDependentsToFile_def splice1_def dedupLoop.simps)

text \<open>
  C2. Claimed: appending the same batch a second time adds nothing. On the empty store the
  first append of \<open>[depA, depB]\<close> writes both records, and the second append writes \<open>depB\<close>
  once more.
\<close>

theorem appendDeduped_second_append_adds:
  "appendDeduped (Some []) [depA, depB] = Inr (Some [depA, depB])
   \<and> appendDeduped (Some [depA, depB]) [depA, depB] = Inr (Some [depA, depB, depB])"
  by (simp add: appendDeduped_def removeDuplicateDependents_def getDependentsFromFile_def
      saveDependentsToFile_def splice1_def dedupLoop.simps)


section \<open>The crawl loop\<close>

text \<open>One turn of the loop of \<open>startCrawl\<close>.\<close>

lemma startCrawl_turn:
  assumes run: "startCrawl (Suc n) w ow st = Some (out, st')"
  obtains (stopped) "st' = st"
  | (saved) S batch where "stored st = Some S"
      "st' = st\<lparr>stored := Some ((if ow then [] else S) @ batch), saves := saves st @ [(ow, batch)]\<rparr>"
  | (goto_failed) S batch u where "stored st = Some S"
      "st' = st\<lparr>stored := Some ((if ow then [] else S) @ batch), saves := saves st @ [(ow, batch)],
                 gotos := gotos st @ [u]\<rparr>"
  | (next_page) S batch u p where "stored st = Some S"
      "startCrawl n w False
         (st\<lparr>stored := Some ((if ow then [] else S) @ batch), saves := saves st @ [(ow, batch)],
              gotos := gotos st @ [u], current := p\<rparr>) = Some (out, st')"
proof (cases "parseDependents (current st)")
  case None
  with run have "st' = st" by simp
  then show ?thesis by (rule stopped)
next
  case (Some pr)
  obtain parsed reported where pr: "pr = (parsed, reported)" by (cases pr)
  show ?thesis
  proof (cases "stored st")
    case None
    with run Some pr have "st' = st" by (simp add: dedup_None)
    then show ?thesis by (rule stopped)
  next
    case S: (Some S)
    show ?thesis
    proof (cases "getPreviousDependentsPageUrl (current st)")
      case (Inl e)
      with run Some pr S have "st' = st" by (simp add: dedup_Some)
      then show ?thesis by (rule stopped)
    next
      case (Inr previousPageUrl)
      let ?batch = "stamp previousPageUrl (dedupLoop S 0 parsed)"
      let ?st1 = "st\<lparr>stored := Some ((if ow then [] else S) @ ?batch),
                       saves := saves st @ [(ow, ?batch)]\<rparr>"
      note facts = run Some pr S Inr
      show ?thesis
      proof (cases "getNextDependentsPageUrl (current st)")
        case (Inl e)
        with facts have "st' = ?st1" by (simp add: dedup_Some save_Some Let_def)
        with S show ?thesis by (rule saved)
      next
        case nx: (Inr nextLink)
        show ?thesis
        proof (cases nextLink)
          case Null
          with facts nx have "st' = ?st1" by (simp add: dedup_Some save_Some Let_def)
          with S show ?thesis by (rule saved)
        next
          case Undefined
          with facts nx have "st' = ?st1" by (simp add: dedup_Some save_Some Let_def)
          with S show ?thesis by (rule saved)
        next
          case (Href nextPageUrl)
          show ?thesis
          proof (cases "w nextPageUrl")
            case None
            with facts nx Href have "st' = ?st1\<lparr>gotos := gotos st @ [nextPageUrl]\<rparr>"
              by (simp add: dedup_Some save_Some Let_def)
            with S show ?thesis by (rule goto_failed)
          next
            case (Some p)
            with facts nx Href have
              "startCrawl n w False (?st1\<lparr>gotos := gotos st @ [nextPageUrl], current := p\<rparr>)
                 = Some (out, st')"
              by (simp add: dedup_Some save_Some Let_def)
            with S show ?thesis by (rule next_page)
          qed
        qed
      qed
    qed
  qed
qed

lemma startCrawl_history:
  "startCrawl n w ow st = Some (out, st') \<Longrightarrow>
     \<exists>new. saves st' = saves st @ new
       \<and> (\<forall>i < length new. fst (new ! i) = (ow \<and> i = 0))
       \<and> (\<forall>S. stored st = Some S \<longrightarrow>
             stored st' = Some ((if ow \<and> new \<noteq> [] then [] else S) @ concat (map snd new)))
       \<and> (stored st = None \<longrightarrow> st' = st)"
proof (induction n arbitrary: ow st)
  case 0
  then show ?case by simp
next
  case (Suc n)
  from Suc.prems show ?case
  proof (cases rule: startCrawl_turn)
    case stopped
    then show ?thesis by (intro exI[of _ "[]"]) simp
  next
    case (saved S batch)
    then show ?thesis by (intro exI[of _ "[(ow, batch)]"]) simp
  next
    case (goto_failed S batch u)
    then show ?thesis by (intro exI[of _ "[(ow, batch)]"]) simp
  next
    case (next_page S batch u p)
    let ?st2 = "st\<lparr>stored := Some ((if ow then [] else S) @ batch),
                     saves := saves st @ [(ow, batch)], gotos := gotos st @ [u], current := p\<rparr>"
    from Suc.IH[OF next_page(2)] obtain new where new:
      "saves st' = saves ?st2 @ new"
      "\<forall>i < length new. fst (new ! i) = (False \<and> i = 0)"
      "\<forall>S'. stored ?st2 = Some S' \<longrightarrow>
          stored st' = Some ((if False \<and> new \<noteq> [] then [] else S') @ concat (map snd new))"
      by blast
    have flags: "\<forall>i < length ((ow, batch) # new). fst (((ow, batch) # new) ! i) = (ow \<and> i = 0)"
    proof (intro allI impI)
      fix i assume "i < length ((ow, batch) # new)"
      then show "fst (((ow, batch) # new) ! i) = (ow \<and> i = 0)"
        using new(2) by (cases i) auto
    qed
    from new(1,3) next_page(1) flags show ?thesis
      by (intro exI[of _ "(ow, batch) # new"]) simp
  qed
qed


lemma resume_cases:
  assumes run: "resumeCrawlFromFile n w st = Some (out, st')"
  obtains (raised) "saves st' = saves st" "stored st' = stored st"
  | (crawl) st0 where "saves st0 = saves st" "stored st0 = stored st"
      "startCrawl n w False st0 = Some (out, st')"
proof (cases "stored st")
  case None
  with run have "st' = st" by (simp add: resumeCrawlFromFile_def getDependentsFromFile_def)
  then show ?thesis by (intro raised) simp_all
next
  case S: (Some S)
  show ?thesis
  proof (cases "rev S")
    case Nil
    with run S have "st' = st" by (simp add: resumeCrawlFromFile_def getDependentsFromFile_def)
    then show ?thesis by (intro raised) simp_all
  next
    case (Cons lastDependent others)
    note facts = run S Cons
    show ?thesis
    proof (cases "previousGithubDependentsPageUrl lastDependent")
      case None
      with facts have "startCrawl n w False st = Some (out, st')"
        by (simp add: resumeCrawlFromFile_def getDependentsFromFile_def)
      then show ?thesis by (intro crawl[of st]) simp_all
    next
      case u: (Some u)
      show ?thesis
      proof (cases "w u")
        case None
        with facts u have "st' = st\<lparr>gotos := gotos st @ [u]\<rparr>"
          by (simp add: resumeCrawlFromFile_def getDependentsFromFile_def Let_def)
        then show ?thesis by (intro raised) simp_all
      next
        case p: (Some p)
        show ?thesis
        proof (cases "getNextDependentsPageUrl p")
          case (Inl e)
          with facts u p have "st' = st\<lparr>gotos := gotos st @ [u], current := p\<rparr>"
            by (simp add: resumeCrawlFromFile_def getDependentsFromFile_def Let_def)
          then show ?thesis by (intro raised) simp_all
        next
          case nx: (Inr nextLink)
          show ?thesis
          proof (cases nextLink)
            case Null
            with facts u p nx have "st' = st\<lparr>gotos := gotos st @ [u], current := p\<rparr>"
              by (simp add: resumeCrawlFromFile_def getDependentsFromFile_def Let_def)
            then show ?thesis by (intro raised) simp_all
          next
            case Undefined
            with facts u p nx have "st' = st\<lparr>gotos := gotos st @ [u], current := p\<rparr>"
              by (simp add: resumeCrawlFromFile_def getDependentsFromFile_def Let_def)
            then show ?thesis by (intro raised) simp_all
          next
            case (Href nextPageUrl)
            show ?thesis
            proof (cases "w nextPageUrl")
              case None
              with facts u p nx Href have
                "st' = st\<lparr>gotos := gotos st @ [u, nextPageUrl], current := p\<rparr>"
                by (simp add: resumeCrawlFromFile_def getDependentsFromFile_def Let_def)
              then show ?thesis by (intro raised) simp_all
            next
              case (Some q)
              with facts u p nx Href have
                "startCrawl n w False (st\<lparr>gotos := gotos st @ [u, nextPageUrl], current := q\<rparr>)
                   = Some (out, st')"
                by (simp add: resumeCrawlFromFile_def getDependentsFromFile_def Let_def)
              then show ?thesis
                by (intro crawl[of "st\<lparr>gotos := gotos st @ [u, nextPageUrl], current := q\<rparr>"]) simp_all
            qed
          qed
        qed
      qed
    qed
  qed
qed

lemma startCrawl_flags:
  assumes "startCrawl n w ow st = Some (out, st')"
  shows "\<exists>new. saves st' = saves st @ new \<and> (\<forall>i < length new. fst (new ! i) = (ow \<and> i = 0))"
  using startCrawl_history[OF assms] by blast



lemma start_flags:
  assumes args: "getArgs args = Inr (githubOwnerAndRepo, dependentsFile, resumeCrawl)"
    and run: "start n w args f = Some (out, st')"
  shows "\<forall>i < length (saves st'). fst (saves st' ! i) = (\<not> resumeCrawl \<and> i < 2)"
proof (cases resumeCrawl)
  case True
  with args run have "resumeCrawlFromFile n w (launch f) = Some (out, st')"
    by (simp add: start_def)
  then show ?thesis
  proof (cases rule: resume_cases)
    case raised
    with True show ?thesis by (simp add: launch_def)
  next
    case (crawl st0)
    from startCrawl_flags[OF crawl(3)] crawl(1) True show ?thesis
      by (auto simp: launch_def)
  qed
next
  case False
  let ?u = "dependents_url githubOwnerAndRepo"
  show ?thesis
  proof (cases "w ?u")
    case None
    with args run False have "st' = (launch f)\<lparr>gotos := [?u]\<rparr>"
      by (simp add: start_def Let_def)
    then show ?thesis by (simp add: launch_def)
  next
    case (Some p)
    with args run False have
      "startCrawl n w True ((launch f)\<lparr>gotos := [?u], current := p, stored := Some [],
          saves := [(True, [])]\<rparr>) = Some (out, st')"
      by (simp add: start_def Let_def saveDependentsToFile_def)
    from startCrawl_flags[OF this] obtain new where
      new: "saves st' = (True, []) # new" "\<forall>i < length new. fst (new ! i) = (i = 0)"
      by auto
    show ?thesis
    proof (intro allI impI)
      fix i assume "i < length (saves st')"
      with new False show "fst (saves st' ! i) = (\<not> resumeCrawl \<and> i < 2)"
        by (cases i) auto
    qed
  qed
qed


lemma start_store:
  assumes args: "getArgs args = Inr (githubOwnerAndRepo, dependentsFile, resumeCrawl)"
    and run: "start n w args f = Some (out, st')"
    and saved: "saves st' \<noteq> []"
  shows "\<exists>S0. (if resumeCrawl then f = Some S0 else S0 = [])
           \<and> stored st' = Some (S0 @ concat (map snd (saves st')))"
proof (cases resumeCrawl)
  case True
  with args run have "resumeCrawlFromFile n w (launch f) = Some (out, st')"
    by (simp add: start_def)
  then show ?thesis
  proof (cases rule: resume_cases)
    case raised
    with saved show ?thesis by (simp add: launch_def)
  next
    case (crawl st0)
    then have st0: "saves st0 = []" "stored st0 = f" by (simp_all add: launch_def)
    from startCrawl_history[OF crawl(3)] st0 obtain new where new:
      "saves st' = new"
      "\<forall>S. f = Some S \<longrightarrow> stored st' = Some (S @ concat (map snd new))"
      "f = None \<longrightarrow> st' = st0"
      by auto
    from new(3) st0(1) saved obtain S where S: "f = Some S" by (cases f) auto
    with new(1,2) True show ?thesis by simp
  qed
next
  case False
  let ?u = "dependents_url githubOwnerAndRepo"
  show ?thesis
  proof (cases "w ?u")
    case None
    with args run False have "st' = (launch f)\<lparr>gotos := [?u]\<rparr>"
      by (simp add: start_def Let_def)
    with saved show ?thesis by (simp add: launch_def)
  next
    case (Some p)
    let ?st0 = "(launch f)\<lparr>gotos := [?u], current := p, stored := Some [],
          saves := [(True, [])]\<rparr>"
    from Some args run False have "startCrawl n w True ?st0 = Some (out, st')"
      by (simp add: start_def Let_def saveDependentsToFile_def)
    from startCrawl_history[OF this] obtain new where
      "saves st' = (True, []) # new" "stored st' = Some (concat (map snd new))"
      by auto
    with False show ?thesis by simp
  qed
qed

text \<open>
  C6. In every run of \<open>startCrawl\<close> that ends, the saves it made carry the flag it was
  called with at the first save and \<open>False\<close> at every later one: the variable is cleared
  after the first save of the loop and never set again. \<open>start\<close> calls the loop with
  \<open>True\<close> only when the run does not resume: in a resumed run every save appends; in a
  fresh run the initialisation of line 312 and the first save of the loop overwrite, and
  every later save appends. The first save of the loop overwrites the empty array that
  the initialisation wrote, so no save of the loop wipes a record: when a run of \<open>start\<close>
  has saved at all, the store holds the batches of all its saves in order, after the
  store it found when it resumes and after nothing when it does not.
\<close>

theorem overwrite_only_first_persist:
  "(startCrawl n w ow st = Some (out, st') \<longrightarrow>
      (\<exists>new. saves st' = saves st @ new \<and> (\<forall>i < length new. fst (new ! i) = (ow \<and> i = 0))))
   \<and> (getArgs args = Inr (githubOwnerAndRepo, dependentsFile, resumeCrawl)
        \<and> start m w' args f = Some (out', st'')
      \<longrightarrow> (\<forall>i < length (saves st''). fst (saves st'' ! i) = (\<not> resumeCrawl \<and> i < 2)))
   \<and> (getArgs args = Inr (githubOwnerAndRepo, dependentsFile, resumeCrawl)
        \<and> start m w' args f = Some (out', st'') \<and> saves st'' \<noteq> []
      \<longrightarrow> (\<exists>S0. (if resumeCrawl then f = Some S0 else S0 = [])
                \<and> stored st'' = Some (S0 @ concat (map snd (saves st'')))))"
  using startCrawl_flags[of n w ow st out st']
    start_flags[of args githubOwnerAndRepo dependentsFile resumeCrawl m w' f out' st'']
    start_store[of args githubOwnerAndRepo dependentsFile resumeCrawl m w' f out' st'']
  by blast

theorem overwrite_only_first_persist_witness:
  "startCrawl 5 web2 True at_page1 =
     Some (DONE, \<lparr> current = page2, stored = Some [depA, depB2],
                   saves = [(True, []), (True, [depA]), (False, [depB2])],
                   gotos = [url1, url2] \<rparr>)
   \<and> saves at_page1 = [(True, [])]
   \<and> start 5 web2 [js ''o/r'', js ''d.json''] None =
     Some (DONE, \<lparr> current = page2, stored = Some [depA, depB2],
                   saves = [(True, []), (True, [depA]), (False, [depB2])],
                   gotos = [url1, url2] \<rparr>)
   \<and> start 5 web2 [js ''o/r'', js ''d.json'', js ''true''] (Some [depA, depB2]) =
     Some (DONE, \<lparr> current = page2, stored = Some [depA, depB2, depB2],
                   saves = [(False, [depB2])], gotos = [url1, url2] \<rparr>)"
  using overwrite_only_first_persist[of 5 web2 True at_page1 DONE _ "[js ''o/r'', js ''d.json'']"
      "js ''o/r''" "js ''d.json''" False 5 web2 None DONE]
    overwrite_only_first_persist[of 5 web2 True at_page1 DONE _
      "[js ''o/r'', js ''d.json'', js ''true'']" "js ''o/r''" "js ''d.json''" True 5 web2
      "Some [depA, depB2]" DONE]
    loop_from_page1 fresh_run resume_run args_fresh args_resume
  by (simp add: at_page1_def)






section \<open>Resuming\<close>

text \<open>
  When the last record of the store has the backward link \<open>u\<close>, the page at \<open>u\<close> has a next
  link and both pages load, resuming is the loop entered on the page after \<open>u\<close>, without
  the overwrite flag.
\<close>

lemma resume_enters_loop:
  assumes "stored st = Some (S @ [lastDependent])"
    and "previousGithubDependentsPageUrl lastDependent = Some u"
    and "w u = Some p"
    and "getNextDependentsPageUrl p = Inr (Href nextPageUrl)"
    and "w nextPageUrl = Some q"
  shows "resumeCrawlFromFile n w st =
           startCrawl n w False (st\<lparr>gotos := gotos st @ [u, nextPageUrl], current := q\<rparr>)"
  using assms by (simp add: resumeCrawlFromFile_def getDependentsFromFile_def Let_def)

text \<open>
  C3. Claimed: resuming from a store whose last record has the backward link \<open>P\<close> goes to
  \<open>P\<close>, takes its next link, enters the loop at the page after \<open>P\<close>, and persists no record
  that the store already holds. On the listing \<open>web2\<close> a fresh run ends with the store
  \<open>[depA, depB2]\<close>. Resuming from that store goes to \<open>url1\<close> and then to \<open>url2\<close>, as
  claimed, and there it persists \<open>depB2\<close> again: the row is compared with the store before
  it is stamped with the backward link, so it is equal to no stored record.
\<close>

theorem resume_persists_last_page_again:
  "start 5 web2 [js ''o/r'', js ''d.json''] None =
     Some (DONE, \<lparr> current = page2, stored = Some [depA, depB2],
                   saves = [(True, []), (True, [depA]), (False, [depB2])],
                   gotos = [url1, url2] \<rparr>)
   \<and> start 5 web2 [js ''o/r'', js ''d.json'', js ''true''] (Some [depA, depB2]) =
     Some (DONE, \<lparr> current = page2, stored = Some [depA, depB2, depB2],
                   saves = [(False, [depB2])], gotos = [url1, url2] \<rparr>)"
  by (simp add: fresh_run resume_run)

text \<open>
  C8. Resuming on a store that holds no record raises the error of line 244 when it reads
  the last record: no page has been visited and nothing has been saved, the state is the
  one the call started in. The same holds of \<open>start\<close> when the arguments ask to resume.
\<close>

theorem resume_on_empty_store:
  "(stored st = Some [] \<longrightarrow> resumeCrawlFromFile n w st = Some (RAISED FileAppearsEmpty, st))
   \<and> (getArgs args = Inr (githubOwnerAndRepo, dependentsFile, True) \<longrightarrow>
        start n w args (Some []) = Some (RAISED FileAppearsEmpty, launch (Some [])))"
  by (simp add: resumeCrawlFromFile_def getDependentsFromFile_def start_def launch_def)

theorem resume_on_empty_store_witness:
  "stored (launch (Some [])) = Some []
   \<and> resumeCrawlFromFile 5 web2 (launch (Some [])) = Some (RAISED FileAppearsEmpty, launch (Some []))
   \<and> start 5 web2 [js ''o/r'', js ''d.json'', js ''true''] (Some []) =
       Some (RAISED FileAppearsEmpty, launch (Some []))
   \<and> gotos (launch (Some [])) = [] \<and> saves (launch (Some [])) = []"
  using resume_on_empty_store [of "launch (Some [])" 5 web2 "[js ''o/r'', js ''d.json'', js ''true'']"
      "js ''o/r''" "js ''d.json''"] args_resume
  by (simp add: launch_def)


section \<open>Argument validation\<close>

text \<open>
  C9. Claimed: \<open>getArgs\<close> raises exactly when the target does not have the shape
  owner/repo, or the file path does not end in \<open>.json\<close>, or the resume argument is present
  and neither \<open>true\<close> nor \<open>false\<close>. The pattern of line 282 has no anchor and its dot is not
  escaped: \<open>out.json.bak\<close> does not end in \<open>.json\<close> and is accepted, and \<open>.json\<close> ends in
  \<open>.json\<close> and is refused.
\<close>

theorem getArgs_json_extension_not_checked:
  "getArgs [js ''o/r'', js ''out.json.bak''] = Inr (js ''o/r'', js ''out.json.bak'', False)
   \<and> getArgs [js ''o/r'', js ''.json''] = Inl BadDependentsFile"
  by (simp add: getArgs_def arg_def Boolean_def rx_eval)

text \<open>
  C10. When \<open>getArgs\<close> returns, the resume flag is true for a third argument \<open>true\<close> and
  for a third argument \<open>false\<close> alike; it is false exactly when there is no third
  argument; a third argument that is present is one of the two strings; and with a third
  argument \<open>start\<close> resumes. So \<open>false\<close> on an empty store raises the error of resuming.
\<close>

theorem getArgs_resume_flag:
  assumes "getArgs args = Inr (githubOwnerAndRepo, dependentsFile, resumeCrawl)"
  shows "(arg args 2 = Some (js ''true'') \<or> arg args 2 = Some (js ''false'') \<longrightarrow> resumeCrawl)
       \<and> (\<not> resumeCrawl \<longleftrightarrow> arg args 2 = None)
       \<and> (arg args 2 \<noteq> None \<longrightarrow>
            arg args 2 = Some (js ''true'') \<or> arg args 2 = Some (js ''false''))
       \<and> (arg args 2 \<noteq> None \<longrightarrow> start n w args f = resumeCrawlFromFile n w (launch f))"
  using assms js_nonempty
  by (auto simp: getArgs_def Boolean_def start_def split: option.splits if_splits)

theorem getArgs_resume_flag_witness:
  "getArgs [js ''o/r'', js ''d.json'', js ''false''] = Inr (js ''o/r'', js ''d.json'', True)
   \<and> arg [js ''o/r'', js ''d.json'', js ''false''] 2 = Some (js ''false'')
   \<and> start 5 web2 [js ''o/r'', js ''d.json'', js ''false''] (Some [])
       = Some (RAISED FileAppearsEmpty, launch (Some []))
   \<and> getArgs [js ''o/r'', js ''d.json''] = Inr (js ''o/r'', js ''d.json'', False)
   \<and> arg [js ''o/r'', js ''d.json''] 2 = None"
  using getArgs_resume_flag [OF args_false, of 5 web2 "Some []"]
    getArgs_resume_flag [OF args_fresh] args_false args_fresh
  by (simp add: arg_def resumeCrawlFromFile_def getDependentsFromFile_def launch_def)

end
